theory Spec2Isabelle
  imports Main
begin

section \<open>The pull-request check gate (src/behaviors/PrChecker.ts)\<close>

text \<open>
  The class \<open>PrChecker\<close> answers GitHub webhook events by creating and updating
  Check Runs through an API client. Each handler is an \<open>async\<close> function. It is
  modelled as a function from a state to a result and a new state. The state records,
  in order, the requests the handler has handed to the API client, the log lines it
  has written, the rejections of promises nobody awaits, and how often it has called
  \<open>findQeUsers\<close>. The result is
  \<open>Inr ()\<close> when the handler's own promise is fulfilled and \<open>Inl e\<close> when it is
  rejected with \<open>e\<close>, which is what the host framework sees.

  The remote service is not part of the program. It is a parameter (\<open>env\<close>): for each
  request it says whether the client's promise is rejected (\<open>Inl\<close>) or fulfilled with
  a response (\<open>Inr\<close>). The theorems quantify over it.
\<close>

subsection \<open>Data\<close>

datatype error =
    HttpError string
  | StatusError string

datatype log_level = LTrace | LDebug | LInfo | LError

type_synonym log_entry = "log_level \<times> string"

text \<open>\<open>context.repo(...)\<close> adds the owner and the name of the repository to its argument.\<close>

type_synonym repo_ref = "string \<times> string"

text \<open>
  The requests of the handlers, with the parameters the source passes:
  \<^item> \<open>ChecksCreate repo name head_sha status conclusion completed_at\<close>
  \<^item> \<open>ChecksUpdate repo check_run_id status conclusion started_at completed_at\<close>
  \<^item> \<open>PullsGet repo number\<close>
  \<^item> \<open>PullsListReviews repo pull_number page\<close>, one request for each page the
    paginating iterator asks for
  \<^item> \<open>PrsForCommit repo head_sha pull_requests\<close>, the call of \<open>getOrQueryPrsForCommit\<close>
\<close>

datatype request =
    ChecksCreate repo_ref string string string "string option" "string option"
  | ChecksUpdate repo_ref int string "string option" "string option" "string option"
  | PullsGet repo_ref int
  | PullsListReviews repo_ref int nat
  | PrsForCommit repo_ref string "int list"

record review =
  user_login :: string
  state :: string

record check_run =
  cr_id :: int
  cr_app_id :: int
  cr_name :: string
  cr_head_sha :: string
  cr_status :: string
  cr_pull_requests :: "int list"

record pull_request =
  pr_number :: int
  pr_head_sha :: string

record review_event =
  action :: string
  review_state :: string
  review_user_login :: string
  sender_login :: string
  pull_request :: pull_request

record 'p webhook_context =
  repo_of :: repo_ref
  payload :: 'p

text \<open>
  The environment of one handler run.
  \<^item> \<open>APP_ID\<close> is \<open>Number(process.env.APP_ID)\<close>; \<open>None\<close> stands for \<open>NaN\<close>, which is
    equal to no app id.
  \<^item> \<open>KIALI_BOT_USER\<close> is \<open>process.env.KIALI_BOT_USER\<close>; \<open>None\<close> stands for
    \<open>undefined\<close>, which is equal to no login.
  \<^item> \<open>now k\<close> is what \<open>moment().toISOString()\<close> reads after \<open>k\<close> requests.
  \<^item> \<open>checks_create\<close>, \<open>checks_update\<close>: rejection, or the status of the response.
  \<^item> \<open>pulls_get\<close>: rejection, or the status and \<open>data.user.login\<close>.
  \<^item> \<open>pulls_listReviews\<close>: the pages the iterator yields for one pull request, each a
    rejection or the status and the reviews of the page; the iteration stops at a
    rejection.
  \<^item> \<open>prs_for_commit\<close>: what \<open>getOrQueryPrsForCommit\<close> gives: a rejection or the numbers
    of the pull requests of the commit.
  \<^item> \<open>throw_on_status\<close>: see \<open>checkResponseStatus\<close> below.
\<close>

record env =
  APP_ID :: "int option"
  KIALI_BOT_USER :: "string option"
  now :: "nat \<Rightarrow> string"
  checks_create :: "request \<Rightarrow> error + nat"
  checks_update :: "request \<Rightarrow> error + nat"
  pulls_get :: "repo_ref \<Rightarrow> int \<Rightarrow> error + nat \<times> string"
  pulls_listReviews :: "repo_ref \<Rightarrow> int \<Rightarrow> (error + nat \<times> review list) list"
  prs_for_commit :: "repo_ref \<Rightarrow> string \<Rightarrow> int list \<Rightarrow> error + int list"
  throw_on_status :: bool

record st =
  trace :: "request list"
  logs :: "log_entry list"
  unhandled :: "error list"
  qe_lookups :: nat

definition st0 :: st where
  "st0 = \<lparr>trace = [], logs = [], unhandled = [], qe_lookups = 0\<rparr>"

definition issue :: "request \<Rightarrow> st \<Rightarrow> st" where
  "issue rq s = s\<lparr>trace := trace s @ [rq]\<rparr>"

definition log :: "log_level \<Rightarrow> string \<Rightarrow> st \<Rightarrow> st" where
  "log l m s = s\<lparr>logs := logs s @ [(l, m)]\<rparr>"

definition clock :: "env \<Rightarrow> st \<Rightarrow> string" where
  "clock e s = now e (length (trace s))"

fun show_nat :: "nat \<Rightarrow> string" where
  "show_nat n =
     (if n < 10 then [char_of (48 + n)]
      else show_nat (n div 10) @ [char_of (48 + n mod 10)])"

declare show_nat.simps [simp del]

definition show_int :: "int \<Rightarrow> string" where
  "show_int i = (if i < 0 then CHR ''-'' # show_nat (nat (- i)) else show_nat (nat i))"

definition CHECK_NAME :: string where
  "CHECK_NAME = ''Kiali - PR''"

subsection \<open>The helpers of utils/OctokitUtils\<close>

text \<open>
  Modelled from the spec: \<open>checkResponseStatus\<close> and \<open>checkResponseWith\<close> of
  \<open>utils/OctokitUtils\<close>, which is not among the sources. The spec says of them that an
  unexpected status of a response ("non-201/200 where expected") is logged and that then
  "the caller continues or the enclosing handler aborts depending on call site". So a
  status other than the expected one writes an error line, and whether the helper then
  throws is the parameter \<open>throw_on_status\<close> of the environment: the theorems hold for
  both. \<open>checkResponseWith\<close> is called with no expected status and takes 200.
\<close>

definition checkResponseStatus ::
  "env \<Rightarrow> nat \<Rightarrow> nat \<Rightarrow> string \<Rightarrow> st \<Rightarrow> (error + unit) \<times> st" where
  "checkResponseStatus e status expected errorMsg s =
     (if status = expected then (Inr (), s)
      else (if throw_on_status e then Inl (StatusError errorMsg) else Inr (),
            log LError errorMsg s))"

definition checkResponseWith :: "env \<Rightarrow> nat \<Rightarrow> st \<Rightarrow> (error + unit) \<times> st" where
  "checkResponseWith e status s =
     checkResponseStatus e status 200 ''Unexpected response status'' s"

subsection \<open>findQeUsers, isOwnedCheckRun\<close>

text \<open>
  \<open>findQeUsers\<close> (lines 210 to 212) gives a fixed list and asks nobody. The list is the
  constant \<open>findQeUsers\<close>; a call of the function is \<open>await_findQeUsers\<close>, which
  counts the call in the state, so that a theorem can say whether a handler has
  fetched the list.
\<close>

definition findQeUsers :: "string list" where
  "findQeUsers = [''edgarHzg'', ''israel-hdez'']"

definition await_findQeUsers :: "st \<Rightarrow> string list \<times> st" where
  "await_findQeUsers s = (findQeUsers, s\<lparr>qe_lookups := Suc (qe_lookups s)\<rparr>)"

definition isOwnedCheckRun :: "env \<Rightarrow> check_run \<Rightarrow> st \<Rightarrow> bool \<times> st" where
  "isOwnedCheckRun e cr s =
     (if Some (cr_app_id cr) \<noteq> APP_ID e \<and> cr_name cr \<noteq> CHECK_NAME
      then (False, log LTrace (''Check run '' @ show_int (cr_id cr) @ '' not owned by this behavior'') s)
      else (True, s))"

subsection \<open>createCheckRun and the handlers that queue a check\<close>

text \<open>
  \<open>createCheckRun\<close> (lines 98 to 112). Its \<open>try\<close> has a \<open>finally\<close> clause and no
  \<open>catch\<close> clause, and the \<open>finally\<close> block is empty: what the block throws leaves the
  function, whose promise is then rejected.
\<close>

definition createCheckRun :: "env \<Rightarrow> repo_ref \<Rightarrow> string \<Rightarrow> st \<Rightarrow> (error + unit) \<times> st" where
  "createCheckRun e r head_sha s =
     (let rq = ChecksCreate r CHECK_NAME head_sha ''queued'' None None;
          s1 = issue rq s
      in case checks_create e rq of
           Inl err \<Rightarrow> (Inl err, s1)
         | Inr status \<Rightarrow> checkResponseStatus e status 201 ''Failed to create check run'' s1)"

text \<open>
  The three handlers call \<open>this.createCheckRun(...)\<close> and do not await the promise it
  returns (lines 46, 51 and 95). The request is handed to the client during the call;
  the handler then ends, and its own promise is fulfilled whatever becomes of the
  request. A rejection of the promise of \<open>createCheckRun\<close> has no handler: it is
  recorded in \<open>unhandled\<close>.
\<close>

definition not_awaited :: "(st \<Rightarrow> (error + unit) \<times> st) \<Rightarrow> st \<Rightarrow> st" where
  "not_awaited p s =
     (case p s of
        (Inl err, s1) \<Rightarrow> s1\<lparr>unhandled := unhandled s1 @ [err]\<rparr>
      | (Inr _, s1) \<Rightarrow> s1)"

definition checkRerequestedHandler ::
  "env \<Rightarrow> check_run webhook_context \<Rightarrow> st \<Rightarrow> (error + unit) \<times> st" where
  "checkRerequestedHandler e ctx s =
     (case isOwnedCheckRun e (payload ctx) s of
        (False, s1) \<Rightarrow> (Inr (), s1)
      | (True, s1) \<Rightarrow>
          (Inr (),
           not_awaited (createCheckRun e (repo_of ctx) (cr_head_sha (payload ctx)))
             (log LDebug ''Queuing new PR checks (check run re-requested)'' s1)))"

definition pullRequestEventHandler ::
  "env \<Rightarrow> pull_request webhook_context \<Rightarrow> st \<Rightarrow> (error + unit) \<times> st" where
  "pullRequestEventHandler e ctx s =
     (Inr (),
      not_awaited (createCheckRun e (repo_of ctx) (pr_head_sha (payload ctx)))
        (log LDebug (''Queuing new PR checks (PR '' @ show_int (pr_number (payload ctx)) @ '')'') s))"

text \<open>
  \<open>pullRequestReviewEventHandler\<close> (lines 54 to 96). The \<open>try\<close> of lines 63 to 90 has
  an empty \<open>finally\<close> clause and no \<open>catch\<close> clause too. Inside it the two calls are
  awaited, so a rejection of \<open>checks.create\<close> and an exception of
  \<open>checkResponseStatus\<close> reject the promise of the handler; and after
  \<open>checkResponseStatus\<close> comes \<open>return\<close>.
\<close>

definition pullRequestReviewEventHandler ::
  "env \<Rightarrow> review_event webhook_context \<Rightarrow> st \<Rightarrow> (error + unit) \<times> st" where
  "pullRequestReviewEventHandler e ctx s =
     (let ev = payload ctx;
          pr = pull_request ev;
          enqueue = (\<lambda>s'.
            (Inr (),
             not_awaited (createCheckRun e (repo_of ctx) (pr_head_sha pr))
               (log LDebug (''Queuing new PR checks (PR '' @ show_int (pr_number pr) @ '')'') s')))
      in if (action ev = ''edited'' \<or> action ev = ''submitted'') \<and> review_state ev = ''approved''
         then
           (case await_findQeUsers s of
              (requiredReviews, sq) \<Rightarrow>
               if sender_login ev \<in> set requiredReviews
               then
                 (let s1 = log LDebug (''Creating successfull check (PR '' @ show_int (pr_number pr) @ '')'') sq;
                      rq = ChecksCreate (repo_of ctx) CHECK_NAME (pr_head_sha pr)
                             ''completed'' (Some ''success'') (Some (clock e s1));
                      s2 = issue rq s1
                  in case checks_create e rq of
                       Inl err \<Rightarrow> (Inl err, s2)
                     | Inr status \<Rightarrow>
                         checkResponseStatus e status 201
                           (''Failed to create green check_run after approval of PR#''
                              @ show_int (pr_number pr) @ ''. A normal check_run will be queued.'')
                           s2)
               else enqueue sq)
         else enqueue s)"

subsection \<open>doChecks\<close>

text \<open>
  \<open>prReviews\<close> (line 163) is a plain object used as a dictionary from logins to review
  states. An assignment \<open>prReviews[k] = v\<close> of a string \<open>v\<close> stores \<open>v\<close> under \<open>k\<close>,
  but for the key \<open>__proto__\<close>, where it changes nothing. A key that was never
  assigned reads as \<open>undefined\<close> or as a member of \<open>Object.prototype\<close>, never as a
  string: it is \<open>None\<close> here.
\<close>

type_synonym ReviewStatuses = "string \<rightharpoonup> string"

definition assign :: "ReviewStatuses \<Rightarrow> review \<Rightarrow> ReviewStatuses" where
  "assign m val = (if user_login val = ''__proto__'' then m else m(user_login val \<mapsto> state val))"

text \<open>Line 179: \<open>qeUsers.some(user => prReviews[user] && prReviews[user] === 'APPROVED')\<close>.\<close>

definition truthy :: "string option \<Rightarrow> bool" where
  "truthy v = (case v of None \<Rightarrow> False | Some x \<Rightarrow> x \<noteq> [])"

definition conclusion_of :: "string list \<Rightarrow> ReviewStatuses \<Rightarrow> string" where
  "conclusion_of qeUsers prReviews =
     (if list_ex (\<lambda>user. truthy (prReviews user) \<and> prReviews user = Some ''APPROVED'') qeUsers
      then ''success'' else ''failure'')"

text \<open>
  The loop of lines 137 to 148. \<open>Inr True\<close>: a pull request of the bot was found and
  line 146 is reached; \<open>Inr False\<close>: the loop ended; \<open>Inl\<close>: an exception.
\<close>

fun botLoop :: "env \<Rightarrow> repo_ref \<Rightarrow> int list \<Rightarrow> st \<Rightarrow> (error + bool) \<times> st" where
  "botLoop e r [] s = (Inr False, s)"
| "botLoop e r (n # ns) s =
     (let s1 = issue (PullsGet r n) s
      in case pulls_get e r n of
           Inl err \<Rightarrow> (Inl err, s1)
         | Inr (status, login) \<Rightarrow>
             (case checkResponseWith e status s1 of
                (Inl err, s2) \<Rightarrow> (Inl err, s2)
              | (Inr _, s2) \<Rightarrow>
                  if Some login = KIALI_BOT_USER e
                  then (Inr True,
                        log LInfo ''Not doing checks on PR because it is owned by the bot user.'' s2)
                  else botLoop e r ns s2))"

text \<open>\<open>markBotPrAsOk\<close> (lines 198 to 208).\<close>

definition markBotPrAsOk :: "env \<Rightarrow> check_run webhook_context \<Rightarrow> st \<Rightarrow> (error + unit) \<times> st" where
  "markBotPrAsOk e ctx s =
     (let rq = ChecksUpdate (repo_of ctx) (cr_id (payload ctx))
                 ''completed'' (Some ''success'') None (Some (clock e s));
          s1 = issue rq s
      in case checks_update e rq of
           Inl err \<Rightarrow> (Inl err, s1)
         | Inr status \<Rightarrow> checkResponseWith e status s1)"

text \<open>The loops of lines 164 to 175: the pages of one pull request, and the pull requests.\<close>

fun pagesLoop ::
  "env \<Rightarrow> repo_ref \<Rightarrow> int \<Rightarrow> nat \<Rightarrow> (error + nat \<times> review list) list \<Rightarrow> ReviewStatuses \<Rightarrow> st
     \<Rightarrow> (error + ReviewStatuses) \<times> st" where
  "pagesLoop e r n k [] m s = (Inr m, s)"
| "pagesLoop e r n k (p # ps) m s =
     (let s1 = issue (PullsListReviews r n k) s
      in case p of
           Inl err \<Rightarrow> (Inl err, s1)
         | Inr (status, reviews) \<Rightarrow>
             (case checkResponseWith e status s1 of
                (Inl err, s2) \<Rightarrow> (Inl err, s2)
              | (Inr _, s2) \<Rightarrow> pagesLoop e r n (Suc k) ps (foldl assign m reviews) s2))"

fun reviewsLoop ::
  "env \<Rightarrow> repo_ref \<Rightarrow> int list \<Rightarrow> ReviewStatuses \<Rightarrow> st \<Rightarrow> (error + ReviewStatuses) \<times> st" where
  "reviewsLoop e r [] m s = (Inr m, s)"
| "reviewsLoop e r (n # ns) m s =
     (case pagesLoop e r n 1 (pulls_listReviews e r n) m s of
        (Inl err, s1) \<Rightarrow> (Inl err, s1)
      | (Inr m1, s1) \<Rightarrow> reviewsLoop e r ns m1 s1)"

text \<open>
  The block of the \<open>try\<close> of \<open>doChecks\<close> (lines 129 to 192). \<open>Inl\<close>: the block throws;
  \<open>Inr True\<close>: it ends at line 146 with \<open>return this.markBotPrAsOk(context)\<close>;
  \<open>Inr False\<close>: it runs to its end.
\<close>

definition doChecks_try :: "env \<Rightarrow> check_run webhook_context \<Rightarrow> st \<Rightarrow> (error + bool) \<times> st" where
  "doChecks_try e ctx s =
     (let cr = payload ctx; r = repo_of ctx;
          s1 = issue (PrsForCommit r (cr_head_sha cr) (cr_pull_requests cr)) s
      in case prs_for_commit e r (cr_head_sha cr) (cr_pull_requests cr) of
           Inl err \<Rightarrow> (Inl err, s1)
         | Inr pull_requests \<Rightarrow>
             (case botLoop e r pull_requests s1 of
                (Inl err, s2) \<Rightarrow> (Inl err, s2)
              | (Inr True, s2) \<Rightarrow> (Inr True, s2)
              | (Inr False, s2) \<Rightarrow>
                  (let inProgressUpdate =
                         ChecksUpdate r (cr_id cr) ''in_progress'' None (Some (clock e s2)) None;
                       s3 = issue inProgressUpdate s2
                   in case checks_update e inProgressUpdate of
                        Inl err \<Rightarrow> (Inl err, s3)
                      | Inr status \<Rightarrow>
                          (case checkResponseWith e status s3 of
                             (Inl err, s4) \<Rightarrow> (Inl err, s4)
                           | (Inr _, s4) \<Rightarrow>
                               (case await_findQeUsers s4 of
                                  (qeUsers, sq) \<Rightarrow>
                                   (case reviewsLoop e r pull_requests Map.empty sq of
                                      (Inl err, s5) \<Rightarrow> (Inl err, s5)
                                    | (Inr prReviews, s5) \<Rightarrow>
                                        (let conclusion = conclusion_of qeUsers prReviews;
                                             inProgressFinish =
                                               ChecksUpdate r (cr_id cr) ''completed''
                                                 (Some conclusion) None (Some (clock e s5));
                                             s6 = issue inProgressFinish s5
                                         in case checks_update e inProgressFinish of
                                              Inl err \<Rightarrow> (Inl err, s6)
                                            | Inr status2 \<Rightarrow>
                                                (case checkResponseWith e status2 s6 of
                                                   (Inl err, s7) \<Rightarrow> (Inl err, s7)
                                                 | (Inr _, s7) \<Rightarrow> (Inr False, s7)))))))))"

text \<open>
  \<open>doChecks\<close> (lines 114 to 196). What the block of the \<open>try\<close> throws is caught at
  line 193 and logged. Line 146 returns the promise of \<open>markBotPrAsOk\<close> and does not
  await it: the block has been left when that promise settles, its rejection is not
  caught by the \<open>catch\<close> clause, and the promise of \<open>doChecks\<close> takes its outcome.
\<close>

definition doChecks :: "env \<Rightarrow> check_run webhook_context \<Rightarrow> st \<Rightarrow> (error + unit) \<times> st" where
  \<open>doChecks e ctx s =
     (case isOwnedCheckRun e (payload ctx) s of
        (False, s1) \<Rightarrow> (Inr (), s1)
      | (True, s1) \<Rightarrow>
          if cr_status (payload ctx) \<noteq> ''queued''
          then (Inr (), log LDebug ''Created check run is not "queued". Not running checks.'' s1)
          else
            (case doChecks_try e ctx s1 of
               (Inl err, s2) \<Rightarrow> (Inr (), log LError ''Error performing check_run'' s2)
             | (Inr True, s2) \<Rightarrow> markBotPrAsOk e ctx s2
             | (Inr False, s2) \<Rightarrow> (Inr (), s2)))\<close>

subsection \<open>The reviews in delivery order\<close>

text \<open>
  The reviews the loops of lines 164 to 175 hand to \<open>forEach\<close> when no page fails: for
  the pull requests in the order of the list, the pages of each in the order of the
  iterator, the reviews of each page in the order of \<open>data\<close>. This is a sequence of the
  environment, not a part of the program; the theorems compare the program with it.
\<close>

definition page_reviews :: "error + nat \<times> review list \<Rightarrow> review list" where
  "page_reviews p = (case p of Inl err \<Rightarrow> [] | Inr (status, reviews) \<Rightarrow> reviews)"

definition delivered_reviews :: "env \<Rightarrow> repo_ref \<Rightarrow> int list \<Rightarrow> review list" where
  "delivered_reviews e r prs =
     concat (map (\<lambda>n. concat (map page_reviews (pulls_listReviews e r n))) prs)"

text \<open>The requests of those loops when no page fails: one for each page, numbered from 1.\<close>

definition review_requests :: "env \<Rightarrow> repo_ref \<Rightarrow> int list \<Rightarrow> request list" where
  "review_requests e r prs =
     concat (map (\<lambda>n. map (PullsListReviews r n) [1..<1 + length (pulls_listReviews e r n)]) prs)"

text \<open>The state of the last review of a login in a sequence of reviews, if there is one.\<close>

definition latest_state :: "review list \<Rightarrow> string \<Rightarrow> string option" where
  "latest_state rs u =
     (case filter (\<lambda>val. user_login val = u) (rev rs) of
        [] \<Rightarrow> None
      | val # _ \<Rightarrow> Some (state val))"

subsection \<open>Kinds of requests\<close>

text \<open>An update of a check run to \<open>in_progress\<close>, and a request for a page of reviews.\<close>

fun is_in_progress_update :: "request \<Rightarrow> bool" where
  "is_in_progress_update (ChecksUpdate r check_run_id status conclusion started_at completed_at) =
     (status = ''in_progress'')"
| "is_in_progress_update rq = False"

fun is_reviews_request :: "request \<Rightarrow> bool" where
  "is_reviews_request (PullsListReviews r pull_number page) = True"
| "is_reviews_request rq = False"

subsection \<open>Sample inputs\<close>

definition sample_repo :: repo_ref where
  "sample_repo = (''kiali'', ''kiali-ui'')"

text \<open>
  A service where every call succeeds. Pull request 7 is the bot's. \<open>edgarHzg\<close> has
  approved pull request 1 and asked for changes on pull request 2; on pull request 3
  the same reviewer approved first and asked for changes later.
\<close>

definition sample_env :: env where
  "sample_env =
     \<lparr>APP_ID = Some 4711,
      KIALI_BOT_USER = Some ''kiali-bot'',
      now = (\<lambda>k. ''2019-05-01T10:00:0'' @ show_nat k @ ''.000Z''),
      checks_create = (\<lambda>rq. Inr 201),
      checks_update = (\<lambda>rq. Inr 200),
      pulls_get = (\<lambda>r n. Inr (200, if n = 7 then ''kiali-bot'' else ''alice'')),
      pulls_listReviews = (\<lambda>r n.
         if n = 1 then [Inr (200, [\<lparr>user_login = ''edgarHzg'', state = ''APPROVED''\<rparr>])]
         else if n = 2 then [Inr (200, [\<lparr>user_login = ''edgarHzg'', state = ''CHANGES_REQUESTED''\<rparr>])]
         else if n = 3 then
           [Inr (200, [\<lparr>user_login = ''edgarHzg'', state = ''APPROVED''\<rparr>,
                       \<lparr>user_login = ''alice'', state = ''APPROVED''\<rparr>]),
            Inr (200, [\<lparr>user_login = ''edgarHzg'', state = ''CHANGES_REQUESTED''\<rparr>])]
         else []),
      prs_for_commit = (\<lambda>r sha prs. Inr prs),
      throw_on_status = True\<rparr>"

text \<open>
  The same service in trouble: the creation and the update of a check run are rejected,
  and so is the fetch of pull request 1.
\<close>

definition failing_env :: env where
  "failing_env =
     sample_env\<lparr>checks_create := (\<lambda>rq. Inl (HttpError ''502'')),
                checks_update := (\<lambda>rq. Inl (HttpError ''502'')),
                pulls_get := (\<lambda>r n. if n = 1 then Inl (HttpError ''502'')
                                      else Inr (200, if n = 7 then ''kiali-bot'' else ''alice''))\<rparr>"

definition sample_check_run :: "int list \<Rightarrow> check_run webhook_context" where
  "sample_check_run prs =
     \<lparr>repo_of = sample_repo,
      payload = \<lparr>cr_id = 99, cr_app_id = 4711, cr_name = ''Kiali - PR'', cr_head_sha = ''c0ffee'',
                 cr_status = ''queued'', cr_pull_requests = prs\<rparr>\<rparr>"

definition sample_review_event :: "review_event webhook_context" where
  "sample_review_event =
     \<lparr>repo_of = sample_repo,
      payload = \<lparr>action = ''submitted'', review_state = ''approved'',
                 review_user_login = ''edgarHzg'', sender_login = ''edgarHzg'',
                 pull_request = \<lparr>pr_number = 1, pr_head_sha = ''c0ffee''\<rparr>\<rparr>\<rparr>"

definition sample_pr_event :: "pull_request webhook_context" where
  "sample_pr_event =
     \<lparr>repo_of = sample_repo, payload = \<lparr>pr_number = 1, pr_head_sha = ''c0ffee''\<rparr>\<rparr>"

section \<open>Lemmas\<close>

lemma checkResponseWith_accepts:
  assumes "status = 200 \<or> \<not> throw_on_status e"
  shows "fst (checkResponseWith e status s) = Inr ()"
    and "trace (snd (checkResponseWith e status s)) = trace s"
    and "unhandled (snd (checkResponseWith e status s)) = unhandled s"
  using assms by (auto simp add: checkResponseWith_def checkResponseStatus_def log_def)

lemma checkResponseWith_frame:
  "trace (snd (checkResponseWith e status s)) = trace s"
  "unhandled (snd (checkResponseWith e status s)) = unhandled s"
  "qe_lookups (snd (checkResponseWith e status s)) = qe_lookups s"
  by (auto simp add: checkResponseWith_def checkResponseStatus_def log_def)

lemma assign_other: "user_login val \<noteq> u \<Longrightarrow> assign m val u = m u"
  by (simp add: assign_def)

lemma assign_same: "user_login val = u \<Longrightarrow> u \<noteq> ''__proto__'' \<Longrightarrow> assign m val u = Some (state val)"
  by (simp add: assign_def)

lemma foldl_assign_latest:
  "u \<noteq> ''__proto__'' \<Longrightarrow>
     foldl assign m rs u = (case latest_state rs u of None \<Rightarrow> m u | Some x \<Rightarrow> Some x)"
proof (induction rs arbitrary: m rule: rev_induct)
  case Nil
  then show ?case by (simp add: latest_state_def)
next
  case (snoc val rs)
  show ?case
  proof (cases "user_login val = u")
    case True
    with snoc.prems show ?thesis by (simp add: latest_state_def assign_same)
  next
    case False
    with snoc show ?thesis by (simp add: latest_state_def assign_other)
  qed
qed

lemma pagesLoop_ok:
  assumes "pagesLoop e r n k ps m s = (Inr m', s')"
  shows "m' = foldl assign m (concat (map page_reviews ps))"
  using assms
proof (induction ps arbitrary: k m s)
  case Nil
  then show ?case by simp
next
  case (Cons p ps)
  then show ?case
    by (auto simp add: Let_def page_reviews_def split: sum.splits prod.splits)
qed

lemma reviewsLoop_ok:
  assumes "reviewsLoop e r prs m s = (Inr m', s')"
  shows "m' = foldl assign m (delivered_reviews e r prs)"
  using assms
proof (induction prs arbitrary: m s)
  case Nil
  then show ?case by (simp add: delivered_reviews_def)
next
  case (Cons n ns)
  from Cons.prems obtain m1 s1 where
    p: "pagesLoop e r n 1 (pulls_listReviews e r n) m s = (Inr m1, s1)"
    and q: "reviewsLoop e r ns m1 s1 = (Inr m', s')"
    by (auto split: sum.splits prod.splits)
  from pagesLoop_ok [OF p] Cons.IH [OF q] show ?case
    by (simp add: delivered_reviews_def)
qed

lemma page_reviews_Inr: "page_reviews (Inr (status, rs)) = rs"
  by (simp add: page_reviews_def)

lemma pagesLoop_run:
  assumes "\<forall>p\<in>set ps. \<exists>status rs. p = Inr (status, rs) \<and> (status = 200 \<or> \<not> throw_on_status e)"
  shows "\<exists>s'. pagesLoop e r n k ps m s = (Inr (foldl assign m (concat (map page_reviews ps))), s')
           \<and> trace s' = trace s @ map (PullsListReviews r n) [k..<k + length ps]
           \<and> unhandled s' = unhandled s"
  using assms
proof (induction ps arbitrary: k m s)
  case Nil
  then show ?case by simp
next
  case (Cons p ps)
  from Cons.prems obtain status rs where
    p: "p = Inr (status, rs)" and ok: "status = 200 \<or> \<not> throw_on_status e"
    by auto
  define s1 where "s1 = issue (PullsListReviews r n k) s"
  define s2 where "s2 = snd (checkResponseWith e status s1)"
  have c: "checkResponseWith e status s1 = (Inr (), s2)"
    using checkResponseWith_accepts(1) [OF ok, of s1] by (simp add: s2_def prod_eq_iff)
  have t2: "trace s2 = trace s @ [PullsListReviews r n k]" "unhandled s2 = unhandled s"
    by (simp_all add: s2_def s1_def checkResponseWith_frame issue_def)
  from Cons.prems have "\<forall>p\<in>set ps. \<exists>status rs. p = Inr (status, rs) \<and> (status = 200 \<or> \<not> throw_on_status e)"
    by simp
  from Cons.IH [OF this, of "Suc k" "foldl assign m rs" s2] obtain s' where
    ih: "pagesLoop e r n (Suc k) ps (foldl assign m rs) s2
           = (Inr (foldl assign (foldl assign m rs) (concat (map page_reviews ps))), s')"
      "trace s' = trace s2 @ map (PullsListReviews r n) [Suc k..<Suc k + length ps]"
      "unhandled s' = unhandled s2"
    by blast
  have step: "pagesLoop e r n k (p # ps) m s = pagesLoop e r n (Suc k) ps (foldl assign m rs) s2"
    using c by (simp add: p s1_def)
  have fold: "foldl assign m (concat (map page_reviews (p # ps)))
                = foldl assign (foldl assign m rs) (concat (map page_reviews ps))"
    by (simp add: p page_reviews_Inr)
  have len: "k + length (p # ps) = Suc k + length ps"
    by simp
  have "[k..<Suc k + length ps] = k # [Suc k..<Suc k + length ps]"
    by (rule upt_conv_Cons) simp
  then have "[k..<k + length (p # ps)] = k # [Suc k..<Suc k + length ps]"
    unfolding len .
  then have reqs: "trace s @ map (PullsListReviews r n) [k..<k + length (p # ps)]
                     = trace s2 @ map (PullsListReviews r n) [Suc k..<Suc k + length ps]"
    by (simp only: t2 list.map append_assoc append_Cons append_Nil)
  show ?case
    unfolding step fold reqs using ih t2(2) by simp
qed

lemma reviewsLoop_run:
  assumes "\<forall>n\<in>set prs. \<forall>p\<in>set (pulls_listReviews e r n).
             \<exists>status rs. p = Inr (status, rs) \<and> (status = 200 \<or> \<not> throw_on_status e)"
  shows "\<exists>s'. reviewsLoop e r prs m s = (Inr (foldl assign m (delivered_reviews e r prs)), s')
           \<and> trace s' = trace s @ review_requests e r prs
           \<and> unhandled s' = unhandled s"
  using assms
proof (induction prs arbitrary: m s)
  case Nil
  then show ?case by (simp add: delivered_reviews_def review_requests_def)
next
  case (Cons n ns)
  from Cons.prems have
    "\<forall>p\<in>set (pulls_listReviews e r n). \<exists>status rs. p = Inr (status, rs) \<and> (status = 200 \<or> \<not> throw_on_status e)"
    by simp
  from pagesLoop_run [OF this, of r n 1 m s] obtain s1 where
    p: "pagesLoop e r n 1 (pulls_listReviews e r n) m s
          = (Inr (foldl assign m (concat (map page_reviews (pulls_listReviews e r n)))), s1)"
      "trace s1 = trace s @ map (PullsListReviews r n) [1..<1 + length (pulls_listReviews e r n)]"
      "unhandled s1 = unhandled s"
    by blast
  from Cons.prems have
    "\<forall>n\<in>set ns. \<forall>p\<in>set (pulls_listReviews e r n).
       \<exists>status rs. p = Inr (status, rs) \<and> (status = 200 \<or> \<not> throw_on_status e)"
    by simp
  from Cons.IH [OF this, of "foldl assign m (concat (map page_reviews (pulls_listReviews e r n)))" s1]
  obtain s' where
    q: "reviewsLoop e r ns (foldl assign m (concat (map page_reviews (pulls_listReviews e r n)))) s1
          = (Inr (foldl assign (foldl assign m (concat (map page_reviews (pulls_listReviews e r n))))
                    (delivered_reviews e r ns)), s')"
      "trace s' = trace s1 @ review_requests e r ns"
      "unhandled s' = unhandled s1"
    by blast
  show ?case
    using p q by (simp add: delivered_reviews_def review_requests_def)
qed

lemma botLoop_none:
  assumes "\<forall>n\<in>set ns. \<exists>status login. pulls_get e r n = Inr (status, login)
             \<and> (status = 200 \<or> \<not> throw_on_status e) \<and> Some login \<noteq> KIALI_BOT_USER e"
  shows "\<exists>s'. botLoop e r ns s = (Inr False, s')
           \<and> trace s' = trace s @ map (PullsGet r) ns \<and> unhandled s' = unhandled s"
  using assms
proof (induction ns arbitrary: s)
  case Nil
  then show ?case by simp
next
  case (Cons n ns)
  from Cons.prems obtain status login where
    g: "pulls_get e r n = Inr (status, login)" and ok: "status = 200 \<or> \<not> throw_on_status e"
    and nb: "Some login \<noteq> KIALI_BOT_USER e"
    by auto
  define s2 where "s2 = snd (checkResponseWith e status (issue (PullsGet r n) s))"
  have c: "checkResponseWith e status (issue (PullsGet r n) s) = (Inr (), s2)"
    using checkResponseWith_accepts(1) [OF ok, of "issue (PullsGet r n) s"]
    by (simp add: s2_def prod_eq_iff)
  have t2: "trace s2 = trace s @ [PullsGet r n]" "unhandled s2 = unhandled s"
    by (simp_all add: s2_def checkResponseWith_frame issue_def)
  from Cons.prems have "\<forall>n\<in>set ns. \<exists>status login. pulls_get e r n = Inr (status, login)
             \<and> (status = 200 \<or> \<not> throw_on_status e) \<and> Some login \<noteq> KIALI_BOT_USER e"
    by simp
  from Cons.IH [OF this, of s2] obtain s' where
    ih: "botLoop e r ns s2 = (Inr False, s')" "trace s' = trace s2 @ map (PullsGet r) ns"
      "unhandled s' = unhandled s2"
    by blast
  have "botLoop e r (n # ns) s = botLoop e r ns s2"
    using g c nb by simp
  then show ?case using ih t2 by simp
qed

lemma botLoop_found:
  assumes "\<forall>n\<in>set pre. \<exists>status login. pulls_get e r n = Inr (status, login)
             \<and> (status = 200 \<or> \<not> throw_on_status e) \<and> Some login \<noteq> KIALI_BOT_USER e"
    and "pulls_get e r b = Inr (status, login)"
    and "status = 200 \<or> \<not> throw_on_status e"
    and "Some login = KIALI_BOT_USER e"
  shows "\<exists>s'. botLoop e r (pre @ b # post) s = (Inr True, s')
           \<and> trace s' = trace s @ map (PullsGet r) (pre @ [b]) \<and> unhandled s' = unhandled s"
  using assms(1)
proof (induction pre arbitrary: s)
  case Nil
  define s2 where "s2 = snd (checkResponseWith e status (issue (PullsGet r b) s))"
  have c: "checkResponseWith e status (issue (PullsGet r b) s) = (Inr (), s2)"
    using checkResponseWith_accepts(1) [OF assms(3), of "issue (PullsGet r b) s"]
    by (simp add: s2_def prod_eq_iff)
  have t2: "trace s2 = trace s @ [PullsGet r b]" "unhandled s2 = unhandled s"
    by (simp_all add: s2_def checkResponseWith_frame issue_def)
  show ?case using assms(2,4) c t2 by (simp add: log_def)
next
  case (Cons n pre)
  from Cons.prems obtain st lg where
    g: "pulls_get e r n = Inr (st, lg)" and ok: "st = 200 \<or> \<not> throw_on_status e"
    and nb: "Some lg \<noteq> KIALI_BOT_USER e"
    by auto
  define s2 where "s2 = snd (checkResponseWith e st (issue (PullsGet r n) s))"
  have c: "checkResponseWith e st (issue (PullsGet r n) s) = (Inr (), s2)"
    using checkResponseWith_accepts(1) [OF ok, of "issue (PullsGet r n) s"]
    by (simp add: s2_def prod_eq_iff)
  have t2: "trace s2 = trace s @ [PullsGet r n]" "unhandled s2 = unhandled s"
    by (simp_all add: s2_def checkResponseWith_frame issue_def)
  from Cons.prems have "\<forall>n\<in>set pre. \<exists>status login. pulls_get e r n = Inr (status, login)
             \<and> (status = 200 \<or> \<not> throw_on_status e) \<and> Some login \<noteq> KIALI_BOT_USER e"
    by simp
  from Cons.IH [OF this, of s2] obtain s' where
    ih: "botLoop e r (pre @ b # post) s2 = (Inr True, s')"
      "trace s' = trace s2 @ map (PullsGet r) (pre @ [b])" "unhandled s' = unhandled s2"
    by blast
  have "botLoop e r ((n # pre) @ b # post) s = botLoop e r (pre @ b # post) s2"
    using g c nb by simp
  then show ?case using ih t2 by simp
qed

lemma isOwnedCheckRun_True:
  "fst (isOwnedCheckRun e cr s) \<Longrightarrow> isOwnedCheckRun e cr s = (True, s)"
  by (simp add: isOwnedCheckRun_def split: if_splits)

lemma doChecks_try_reviewed:
  assumes prs: "prs_for_commit e (repo_of ctx) (cr_head_sha (payload ctx))
                  (cr_pull_requests (payload ctx)) = Inr prs"
    and nobot: "\<forall>n\<in>set prs. \<exists>status login. pulls_get e (repo_of ctx) n = Inr (status, login)
                  \<and> (status = 200 \<or> \<not> throw_on_status e) \<and> Some login \<noteq> KIALI_BOT_USER e"
    and upd: "\<forall>rq. \<exists>status. checks_update e rq = Inr status \<and> (status = 200 \<or> \<not> throw_on_status e)"
    and pages: "\<forall>n\<in>set prs. \<forall>p\<in>set (pulls_listReviews e (repo_of ctx) n).
                  \<exists>status rs. p = Inr (status, rs) \<and> (status = 200 \<or> \<not> throw_on_status e)"
  shows "\<exists>s' t1 t2. doChecks_try e ctx s = (Inr False, s')
           \<and> trace s' =
               trace s
               @ [PrsForCommit (repo_of ctx) (cr_head_sha (payload ctx)) (cr_pull_requests (payload ctx))]
               @ map (PullsGet (repo_of ctx)) prs
               @ [ChecksUpdate (repo_of ctx) (cr_id (payload ctx)) ''in_progress'' None (Some t1) None]
               @ review_requests e (repo_of ctx) prs
               @ [ChecksUpdate (repo_of ctx) (cr_id (payload ctx)) ''completed''
                    (Some (conclusion_of findQeUsers
                             (foldl assign Map.empty (delivered_reviews e (repo_of ctx) prs))))
                    None (Some t2)]
           \<and> unhandled s' = unhandled s"
proof -
  define r where "r = repo_of ctx"
  define cr where "cr = payload ctx"
  define s1 where "s1 = issue (PrsForCommit r (cr_head_sha cr) (cr_pull_requests cr)) s"
  from botLoop_none [OF nobot, of s1] obtain s2 where
    b: "botLoop e r prs s1 = (Inr False, s2)"
    and t2: "trace s2 = trace s1 @ map (PullsGet r) prs" "unhandled s2 = unhandled s1"
    unfolding r_def by blast
  define rq1 where "rq1 = ChecksUpdate r (cr_id cr) ''in_progress'' None (Some (clock e s2)) None"
  define s3 where "s3 = issue rq1 s2"
  from upd obtain st1 where u1: "checks_update e rq1 = Inr st1"
    and ok1: "st1 = 200 \<or> \<not> throw_on_status e"
    by blast
  define s4 where "s4 = snd (checkResponseWith e st1 s3)"
  have c1: "checkResponseWith e st1 s3 = (Inr (), s4)"
    using checkResponseWith_accepts(1) [OF ok1, of s3] by (simp add: s4_def prod_eq_iff)
  have t4: "trace s4 = trace s2 @ [rq1]" "unhandled s4 = unhandled s2"
    by (simp_all add: s4_def s3_def checkResponseWith_frame issue_def)
  define m where "m = foldl assign Map.empty (delivered_reviews e r prs)"
  define sq where "sq = snd (await_findQeUsers s4)"
  have q: "await_findQeUsers s4 = (findQeUsers, sq)"
    by (simp add: sq_def await_findQeUsers_def)
  have tq: "trace sq = trace s4" "unhandled sq = unhandled s4"
    by (simp_all add: sq_def await_findQeUsers_def)
  from reviewsLoop_run [OF pages, of Map.empty sq] obtain s5 where
    l: "reviewsLoop e r prs Map.empty sq = (Inr m, s5)"
    and t5: "trace s5 = trace sq @ review_requests e r prs" "unhandled s5 = unhandled sq"
    unfolding r_def m_def by blast
  define rq2 where "rq2 = ChecksUpdate r (cr_id cr) ''completed''
                            (Some (conclusion_of findQeUsers m)) None (Some (clock e s5))"
  define s6 where "s6 = issue rq2 s5"
  from upd obtain st2 where u2: "checks_update e rq2 = Inr st2"
    and ok2: "st2 = 200 \<or> \<not> throw_on_status e"
    by blast
  define s7 where "s7 = snd (checkResponseWith e st2 s6)"
  have c2: "checkResponseWith e st2 s6 = (Inr (), s7)"
    using checkResponseWith_accepts(1) [OF ok2, of s6] by (simp add: s7_def prod_eq_iff)
  have t7: "trace s7 = trace s5 @ [rq2]" "unhandled s7 = unhandled s5"
    by (simp_all add: s7_def s6_def checkResponseWith_frame issue_def)
  have run: "doChecks_try e ctx s = (Inr False, s7)"
    using prs b u1 c1 q l u2 c2
    by (simp add: doChecks_try_def Let_def r_def [symmetric] cr_def [symmetric]
          s1_def [symmetric] rq1_def [symmetric] s3_def [symmetric] rq2_def [symmetric]
          s6_def [symmetric])
  have t1: "trace s1 = trace s @ [PrsForCommit r (cr_head_sha cr) (cr_pull_requests cr)]"
    "unhandled s1 = unhandled s"
    by (simp_all add: s1_def issue_def)
  have "trace s7 = trace s @ [PrsForCommit r (cr_head_sha cr) (cr_pull_requests cr)]
                     @ map (PullsGet r) prs @ [rq1] @ review_requests e r prs @ [rq2]"
    by (simp add: t7 t5 tq t4 t2 t1)
  moreover have "unhandled s7 = unhandled s"
    by (simp add: t7 t5 tq t4 t2 t1)
  ultimately show ?thesis
    using run unfolding rq1_def rq2_def m_def r_def cr_def by blast
qed

lemma conclusion_of_iff:
  "conclusion_of qeUsers m =
     (if \<exists>user\<in>set qeUsers. m user = Some ''APPROVED'' then ''success'' else ''failure'')"
  by (auto simp add: conclusion_of_def list_ex_iff truthy_def)

lemma markBotPrAsOk_frame:
  "trace (snd (markBotPrAsOk e ctx s)) =
     trace s @ [ChecksUpdate (repo_of ctx) (cr_id (payload ctx)) ''completed'' (Some ''success'')
                  None (Some (clock e s))]"
  "unhandled (snd (markBotPrAsOk e ctx s)) = unhandled s"
  "qe_lookups (snd (markBotPrAsOk e ctx s)) = qe_lookups s"
  by (simp_all add: markBotPrAsOk_def Let_def checkResponseWith_frame issue_def split: sum.splits)

lemma markBotPrAsOk_accepted:
  assumes "checks_update e (ChecksUpdate (repo_of ctx) (cr_id (payload ctx)) ''completed''
                              (Some ''success'') None (Some (clock e s))) = Inr status"
    and "status = 200 \<or> \<not> throw_on_status e"
  shows "fst (markBotPrAsOk e ctx s) = Inr ()"
  using assms checkResponseWith_accepts(1) [OF assms(2)]
  by (simp add: markBotPrAsOk_def Let_def)

lemma botLoop_qe_lookups: "qe_lookups (snd (botLoop e r ns s)) = qe_lookups s"
proof (induction ns arbitrary: s)
  case Nil
  show ?case by simp
next
  case (Cons n ns)
  show ?case
  proof (cases "pulls_get e r n")
    case (Inl err)
    then show ?thesis by (simp add: issue_def)
  next
    case (Inr p)
    obtain status login where p: "p = (status, login)"
      by (cases p)
    define s2 where "s2 = snd (checkResponseWith e status (issue (PullsGet r n) s))"
    have q: "qe_lookups s2 = qe_lookups s"
      by (simp add: s2_def checkResponseWith_frame issue_def)
    show ?thesis
      using Inr p q Cons.IH [of s2]
      by (cases "checkResponseWith e status (issue (PullsGet r n) s)")
         (auto simp add: s2_def log_def split: sum.splits)
  qed
qed

lemma latest_state_append:
  "latest_state (xs @ ys) u =
     (case latest_state ys u of Some x \<Rightarrow> Some x | None \<Rightarrow> latest_state xs u)"
  by (cases "filter (\<lambda>val. user_login val = u) (rev ys)") (simp_all add: latest_state_def)

lemma markBotPrAsOk_ok:
  "checks_update e (ChecksUpdate (repo_of ctx) (cr_id (payload ctx)) ''completed'' (Some ''success'')
                      None (Some (clock e s))) = Inr 200
   \<Longrightarrow> fst (markBotPrAsOk e ctx s) = Inr ()"
  by (simp add: markBotPrAsOk_def Let_def checkResponseWith_def checkResponseStatus_def)

lemma latest_state_last:
  "map state (filter (\<lambda>val. user_login val = u) rs) = xs @ [x] \<Longrightarrow> latest_state rs u = Some x"
proof -
  assume a: "map state (filter (\<lambda>val. user_login val = u) rs) = xs @ [x]"
  have "map state (filter (\<lambda>val. user_login val = u) (rev rs)) = x # rev xs"
    using arg_cong [OF a, of rev] by (simp add: rev_map rev_filter)
  then show ?thesis
    by (cases "filter (\<lambda>val. user_login val = u) (rev rs)") (auto simp add: latest_state_def)
qed

lemma qe_not_proto: "user \<in> set findQeUsers \<Longrightarrow> user \<noteq> ''__proto__''"
  by (auto simp add: findQeUsers_def)

lemma delivered_reviews_append:
  "delivered_reviews e r (xs @ ys) = delivered_reviews e r xs @ delivered_reviews e r ys"
  by (simp add: delivered_reviews_def)

lemma sample_two_prs:
  "doChecks sample_env (sample_check_run [1, 2]) st0 =
     (Inr (),
      \<lparr>trace = [PrsForCommit (''kiali'', ''kiali-ui'') ''c0ffee'' [1, 2],
                PullsGet (''kiali'', ''kiali-ui'') 1,
                PullsGet (''kiali'', ''kiali-ui'') 2,
                ChecksUpdate (''kiali'', ''kiali-ui'') 99 ''in_progress'' None
                  (Some ''2019-05-01T10:00:03.000Z'') None,
                PullsListReviews (''kiali'', ''kiali-ui'') 1 1,
                PullsListReviews (''kiali'', ''kiali-ui'') 2 1,
                ChecksUpdate (''kiali'', ''kiali-ui'') 99 ''completed'' (Some ''failure'') None
                  (Some ''2019-05-01T10:00:06.000Z'')],
       logs = [], unhandled = [], qe_lookups = 1\<rparr>)"
  by code_simp

lemma sample_first_pr_latest:
  "latest_state (delivered_reviews sample_env sample_repo [1]) ''edgarHzg'' = Some ''APPROVED''"
  by (simp add: latest_state_def delivered_reviews_def sample_env_def page_reviews_def)

section \<open>The claims\<close>

subsection \<open>Claim C1\<close>



subsection \<open>Claim C2\<close>

text \<open>
  Claim C2. \<open>isOwnedCheckRun\<close> answers yes exactly when the app id of the check run is
  the configured one or the name of the check run is \<open>Kiali - PR\<close>. Unless the check
  run is owned and its status is \<open>queued\<close>, \<open>doChecks\<close> returns with no request made
  and no promise left behind.
\<close>

theorem doChecks_guard: 
  "fst (isOwnedCheckRun e cr s) = (Some (cr_app_id cr) = APP_ID e \<or> cr_name cr = ''Kiali - PR'')
   \<and> (\<not> (fst (isOwnedCheckRun e (payload ctx) s) \<and> cr_status (payload ctx) = ''queued'') \<longrightarrow>
        fst (doChecks e ctx s) = Inr () \<and> trace (snd (doChecks e ctx s)) = trace s
        \<and> unhandled (snd (doChecks e ctx s)) = unhandled s)"
  by (auto simp add: isOwnedCheckRun_def CHECK_NAME_def doChecks_def log_def)

theorem doChecks_guard_witness:
  "\<not> (fst (isOwnedCheckRun sample_env (payload ((sample_check_run [1])\<lparr>payload := (payload (sample_check_run [1]))\<lparr>cr_status := ''completed''\<rparr>\<rparr>)) st0)
       \<and> cr_status (payload ((sample_check_run [1])\<lparr>payload := (payload (sample_check_run [1]))\<lparr>cr_status := ''completed''\<rparr>\<rparr>)) = ''queued'')
   \<and> trace (snd (doChecks sample_env ((sample_check_run [1])\<lparr>payload := (payload (sample_check_run [1]))\<lparr>cr_status := ''completed''\<rparr>\<rparr>) st0)) = []"
  using doChecks_guard [of sample_env "payload (sample_check_run [1])" st0 "(sample_check_run [1])\<lparr>payload := (payload (sample_check_run [1]))\<lparr>cr_status := ''completed''\<rparr>\<rparr>"]
  by (simp add: sample_check_run_def st0_def)

subsection \<open>Claim C3\<close>

text \<open>
  Claim C3. Let the check run be owned and queued and let the calls succeed: the lookup
  gives the pull requests \<open>prs\<close>, each of them can be fetched, and an update of the
  check run is accepted. If one of the pull requests is the bot's, then \<open>doChecks\<close>
  returns, and its requests are the lookup, the fetches of the pull requests up to the
  first one of the bot (\<open>b\<close>, after \<open>pre\<close>), and one update of the check run, to
  \<open>completed\<close> with \<open>success\<close>. None of its requests is an update to \<open>in_progress\<close>,
  none asks for reviews, and \<open>findQeUsers\<close> has not been called.
\<close>

theorem doChecks_bot_pr_passes:
  assumes owned: "fst (isOwnedCheckRun e (payload ctx) s)"
    and queued: "cr_status (payload ctx) = ''queued''"
    and prs: "prs_for_commit e (repo_of ctx) (cr_head_sha (payload ctx))
                  (cr_pull_requests (payload ctx)) = Inr prs"
    and fetched: "\<forall>n\<in>set prs. \<exists>status login. pulls_get e (repo_of ctx) n = Inr (status, login)
                  \<and> (status = 200 \<or> \<not> throw_on_status e)"
    and bot: "\<exists>n\<in>set prs. \<exists>status login. pulls_get e (repo_of ctx) n = Inr (status, login)
                  \<and> Some login = KIALI_BOT_USER e"
    and upd: "\<forall>rq. \<exists>status. checks_update e rq = Inr status \<and> (status = 200 \<or> \<not> throw_on_status e)"
  shows "\<exists>s' pre b post t.
           prs = pre @ b # post
           \<and> (\<exists>status login. pulls_get e (repo_of ctx) b = Inr (status, login)
                  \<and> Some login = KIALI_BOT_USER e)
           \<and> doChecks e ctx s = (Inr (), s')
           \<and> trace s' =
               trace s
               @ [PrsForCommit (repo_of ctx) (cr_head_sha (payload ctx)) (cr_pull_requests (payload ctx))]
               @ map (PullsGet (repo_of ctx)) (pre @ [b])
               @ [ChecksUpdate (repo_of ctx) (cr_id (payload ctx)) ''completed'' (Some ''success'')
                    None (Some t)]
           \<and> (\<forall>rq\<in>set (drop (length (trace s)) (trace s')).
                  \<not> is_in_progress_update rq \<and> \<not> is_reviews_request rq)
           \<and> qe_lookups s' = qe_lookups s"
proof -
  define isbot where
    "isbot n \<longleftrightarrow> (\<exists>status login. pulls_get e (repo_of ctx) n = Inr (status, login)
                    \<and> Some login = KIALI_BOT_USER e)" for n
  from bot have "\<exists>n\<in>set prs. isbot n"
    by (simp add: isbot_def)
  from split_list_first_prop [OF this] obtain pre b post where
    split: "prs = pre @ b # post" and b: "isbot b" and first: "\<forall>n\<in>set pre. \<not> isbot n"
    by blast
  from b obtain status login where
    gb: "pulls_get e (repo_of ctx) b = Inr (status, login)" and lb: "Some login = KIALI_BOT_USER e"
    unfolding isbot_def by blast
  from fetched split gb have okb: "status = 200 \<or> \<not> throw_on_status e"
    by fastforce
  have pre: "\<forall>n\<in>set pre. \<exists>status login. pulls_get e (repo_of ctx) n = Inr (status, login)
                  \<and> (status = 200 \<or> \<not> throw_on_status e) \<and> Some login \<noteq> KIALI_BOT_USER e"
  proof
    fix n
    assume n: "n \<in> set pre"
    with fetched split obtain st lg where
      g: "pulls_get e (repo_of ctx) n = Inr (st, lg)" and ok: "st = 200 \<or> \<not> throw_on_status e"
      by fastforce
    from first n g have "Some lg \<noteq> KIALI_BOT_USER e"
      unfolding isbot_def by blast
    with g ok show "\<exists>status login. pulls_get e (repo_of ctx) n = Inr (status, login)
                  \<and> (status = 200 \<or> \<not> throw_on_status e) \<and> Some login \<noteq> KIALI_BOT_USER e"
      by blast
  qed
  define rq0 where
    "rq0 = PrsForCommit (repo_of ctx) (cr_head_sha (payload ctx)) (cr_pull_requests (payload ctx))"
  define s1 where "s1 = issue rq0 s"
  from botLoop_found [OF pre gb okb lb, of post s1] obtain s2 where
    loop: "botLoop e (repo_of ctx) (pre @ b # post) s1 = (Inr True, s2)"
    and t2: "trace s2 = trace s1 @ map (PullsGet (repo_of ctx)) (pre @ [b])"
    by blast
  have q2: "qe_lookups s2 = qe_lookups s"
    using botLoop_qe_lookups [of e "repo_of ctx" "pre @ b # post" s1] loop
    by (simp add: s1_def issue_def)
  have "doChecks_try e ctx s = (Inr True, s2)"
    using prs loop by (simp add: doChecks_try_def Let_def split s1_def rq0_def)
  then have run: "doChecks e ctx s = markBotPrAsOk e ctx s2"
    using isOwnedCheckRun_True [OF owned] queued by (simp add: doChecks_def)
  define rq where
    "rq = ChecksUpdate (repo_of ctx) (cr_id (payload ctx)) ''completed'' (Some ''success'')
            None (Some (clock e s2))"
  from upd obtain st where u: "checks_update e rq = Inr st" and oku: "st = 200 \<or> \<not> throw_on_status e"
    by blast
  define s' where "s' = snd (markBotPrAsOk e ctx s2)"
  have "fst (markBotPrAsOk e ctx s2) = Inr ()"
    using markBotPrAsOk_accepted [OF u [unfolded rq_def] oku] .
  then have res: "doChecks e ctx s = (Inr (), s')"
    by (simp add: run s'_def prod_eq_iff)
  have tr: "trace s' = trace s @ [rq0] @ map (PullsGet (repo_of ctx)) (pre @ [b]) @ [rq]"
    by (simp add: s'_def markBotPrAsOk_frame t2 s1_def issue_def rq_def)
  have none: "\<forall>x\<in>set (drop (length (trace s)) (trace s')).
                \<not> is_in_progress_update x \<and> \<not> is_reviews_request x"
    by (auto simp add: tr rq0_def rq_def)
  have q: "qe_lookups s' = qe_lookups s"
    by (simp add: s'_def markBotPrAsOk_frame q2)
  from split gb lb res tr none q show ?thesis
    unfolding rq0_def rq_def by blast
qed

theorem doChecks_bot_pr_passes_witness:
  "\<exists>s' t. doChecks sample_env (sample_check_run [1, 7, 2]) st0 = (Inr (), s')
     \<and> last (trace s') = ChecksUpdate sample_repo 99 ''completed'' (Some ''success'') None (Some t)
     \<and> length (trace s') = 4
     \<and> (\<forall>rq\<in>set (trace s'). \<not> is_in_progress_update rq \<and> \<not> is_reviews_request rq)
     \<and> qe_lookups s' = 0"
proof -
  have owned: "fst (isOwnedCheckRun sample_env (payload (sample_check_run [1, 7, 2])) st0)"
    by (simp add: isOwnedCheckRun_def sample_env_def sample_check_run_def)
  have queued: "cr_status (payload (sample_check_run [1, 7, 2])) = ''queued''"
    by (simp add: sample_check_run_def)
  have prs: "prs_for_commit sample_env (repo_of (sample_check_run [1, 7, 2]))
               (cr_head_sha (payload (sample_check_run [1, 7, 2])))
               (cr_pull_requests (payload (sample_check_run [1, 7, 2]))) = Inr [1, 7, 2]"
    by (simp add: sample_env_def sample_check_run_def)
  have fetched: "\<forall>n\<in>set [1, 7, 2]. \<exists>status login.
               pulls_get sample_env (repo_of (sample_check_run [1, 7, 2])) n = Inr (status, login)
               \<and> (status = 200 \<or> \<not> throw_on_status sample_env)"
    by (simp add: sample_env_def)
  have bot: "\<exists>n\<in>set [1, 7, 2]. \<exists>status login.
               pulls_get sample_env (repo_of (sample_check_run [1, 7, 2])) n = Inr (status, login)
               \<and> Some login = KIALI_BOT_USER sample_env"
    by (simp add: sample_env_def)
  have upd: "\<forall>rq. \<exists>status. checks_update sample_env rq = Inr status
               \<and> (status = 200 \<or> \<not> throw_on_status sample_env)"
    by (simp add: sample_env_def)
  from doChecks_bot_pr_passes [OF owned queued prs fetched bot upd] obtain s' pre b post t where
    split: "[1, 7, 2] = pre @ b # post"
    and b: "\<exists>status login. pulls_get sample_env (repo_of (sample_check_run [1, 7, 2])) b
                               = Inr (status, login)
                           \<and> Some login = KIALI_BOT_USER sample_env"
    and res: "doChecks sample_env (sample_check_run [1, 7, 2]) st0 = (Inr (), s')"
    and tr: "trace s' =
               trace st0
               @ [PrsForCommit (repo_of (sample_check_run [1, 7, 2]))
                    (cr_head_sha (payload (sample_check_run [1, 7, 2])))
                    (cr_pull_requests (payload (sample_check_run [1, 7, 2])))]
               @ map (PullsGet (repo_of (sample_check_run [1, 7, 2]))) (pre @ [b])
               @ [ChecksUpdate (repo_of (sample_check_run [1, 7, 2]))
                    (cr_id (payload (sample_check_run [1, 7, 2]))) ''completed'' (Some ''success'')
                    None (Some t)]"
    and none: "\<forall>rq\<in>set (drop (length (trace st0)) (trace s')).
                 \<not> is_in_progress_update rq \<and> \<not> is_reviews_request rq"
    and q: "qe_lookups s' = qe_lookups st0"
    by blast
  from b have "b = 7"
    by (auto simp add: sample_env_def split: if_splits)
  with split have "pre = [1]"
    by (auto simp add: append_eq_Cons_conv Cons_eq_append_conv)
  with res tr none q show ?thesis
    by (auto simp add: st0_def sample_check_run_def)
qed

subsection \<open>Claim C4\<close>

text \<open>
  Claim C4. Let the check run be owned and queued, let none of the pull requests be the
  bot's and let every call succeed. Then the loops of lines 164 to 175 return a
  mapping, from whatever state they start; the mapping gives every login the state of
  its last review in delivery order; and \<open>doChecks\<close> returns, its last request being the
  update to \<open>completed\<close> with the conclusion computed from that mapping. So if the
  states of the reviews of a login of \<open>findQeUsers\<close> are, in delivery order, an
  \<open>APPROVED\<close> and later, as the last one, a \<open>CHANGES_REQUESTED\<close>, the mapping gives
  that login \<open>CHANGES_REQUESTED\<close>; and if no other login of \<open>findQeUsers\<close> has
  \<open>APPROVED\<close> in the mapping, the conclusion is \<open>failure\<close>. (The key \<open>__proto__\<close> is
  never stored, and it is not a login of \<open>findQeUsers\<close>.)
\<close>

theorem reviews_latest_state_wins:
  assumes owned: "fst (isOwnedCheckRun e (payload ctx) s)"
    and queued: "cr_status (payload ctx) = ''queued''"
    and prs: "prs_for_commit e (repo_of ctx) (cr_head_sha (payload ctx))
                  (cr_pull_requests (payload ctx)) = Inr prs"
    and nobot: "\<forall>n\<in>set prs. \<exists>status login. pulls_get e (repo_of ctx) n = Inr (status, login)
                  \<and> (status = 200 \<or> \<not> throw_on_status e) \<and> Some login \<noteq> KIALI_BOT_USER e"
    and upd: "\<forall>rq. \<exists>status. checks_update e rq = Inr status \<and> (status = 200 \<or> \<not> throw_on_status e)"
    and pages: "\<forall>n\<in>set prs. \<forall>p\<in>set (pulls_listReviews e (repo_of ctx) n).
                  \<exists>status rs. p = Inr (status, rs) \<and> (status = 200 \<or> \<not> throw_on_status e)"
  shows "\<exists>prReviews.
           (\<forall>s1. \<exists>s2. reviewsLoop e (repo_of ctx) prs Map.empty s1 = (Inr prReviews, s2))
         \<and> (\<forall>u. u \<noteq> ''__proto__''
                \<longrightarrow> prReviews u = latest_state (delivered_reviews e (repo_of ctx) prs) u)
         \<and> (\<exists>s' t. doChecks e ctx s = (Inr (), s')
                \<and> last (trace s') =
                    ChecksUpdate (repo_of ctx) (cr_id (payload ctx)) ''completed''
                      (Some (conclusion_of findQeUsers prReviews)) None (Some t))
         \<and> (user \<in> set findQeUsers
              \<and> map state (filter (\<lambda>val. user_login val = user)
                                (delivered_reviews e (repo_of ctx) prs))
                  = earlier @ ''APPROVED'' # between @ [''CHANGES_REQUESTED'']
            \<longrightarrow> prReviews user = Some ''CHANGES_REQUESTED''
                \<and> ((\<forall>other\<in>set findQeUsers. other \<noteq> user \<longrightarrow> prReviews other \<noteq> Some ''APPROVED'')
                     \<longrightarrow> conclusion_of findQeUsers prReviews = ''failure''))"
proof -
  define prReviews where
    "prReviews = foldl assign Map.empty (delivered_reviews e (repo_of ctx) prs)"
  have loop: "\<exists>s2. reviewsLoop e (repo_of ctx) prs Map.empty s1 = (Inr prReviews, s2)" for s1
    using reviewsLoop_run [OF pages, of Map.empty s1] unfolding prReviews_def by blast
  have latest: "prReviews u = latest_state (delivered_reviews e (repo_of ctx) prs) u"
    if "u \<noteq> ''__proto__''" for u
    using foldl_assign_latest [OF that, of Map.empty "delivered_reviews e (repo_of ctx) prs"]
    by (simp add: prReviews_def split: option.splits)
  from doChecks_try_reviewed [OF prs nobot upd pages, of s] obtain s' t1 t2 where
    run: "doChecks_try e ctx s = (Inr False, s')"
    and tr: "trace s' =
               trace s
               @ [PrsForCommit (repo_of ctx) (cr_head_sha (payload ctx)) (cr_pull_requests (payload ctx))]
               @ map (PullsGet (repo_of ctx)) prs
               @ [ChecksUpdate (repo_of ctx) (cr_id (payload ctx)) ''in_progress'' None (Some t1) None]
               @ review_requests e (repo_of ctx) prs
               @ [ChecksUpdate (repo_of ctx) (cr_id (payload ctx)) ''completed''
                    (Some (conclusion_of findQeUsers
                             (foldl assign Map.empty (delivered_reviews e (repo_of ctx) prs))))
                    None (Some t2)]"
    by blast
  have "doChecks e ctx s = (Inr (), s')"
    using isOwnedCheckRun_True [OF owned] queued run by (simp add: doChecks_def)
  moreover from tr have "last (trace s') =
                    ChecksUpdate (repo_of ctx) (cr_id (payload ctx)) ''completed''
                      (Some (conclusion_of findQeUsers prReviews)) None (Some t2)"
    by (simp add: prReviews_def)
  ultimately have handler: "\<exists>s' t. doChecks e ctx s = (Inr (), s')
                \<and> last (trace s') =
                    ChecksUpdate (repo_of ctx) (cr_id (payload ctx)) ''completed''
                      (Some (conclusion_of findQeUsers prReviews)) None (Some t)"
    by blast
  have scen: "prReviews user = Some ''CHANGES_REQUESTED''
              \<and> ((\<forall>other\<in>set findQeUsers. other \<noteq> user \<longrightarrow> prReviews other \<noteq> Some ''APPROVED'')
                   \<longrightarrow> conclusion_of findQeUsers prReviews = ''failure'')"
    if qe: "user \<in> set findQeUsers"
      and ord: "map state (filter (\<lambda>val. user_login val = user)
                             (delivered_reviews e (repo_of ctx) prs))
                = earlier @ ''APPROVED'' # between @ [''CHANGES_REQUESTED'']"
  proof -
    from ord have "map state (filter (\<lambda>val. user_login val = user)
                                (delivered_reviews e (repo_of ctx) prs))
                = (earlier @ ''APPROVED'' # between) @ [''CHANGES_REQUESTED'']"
      by simp
    from latest_state_last [OF this] latest [OF qe_not_proto [OF qe]]
    have u: "prReviews user = Some ''CHANGES_REQUESTED''" by simp
    have "prReviews x \<noteq> Some ''APPROVED''"
      if others: "\<forall>other\<in>set findQeUsers. other \<noteq> user \<longrightarrow> prReviews other \<noteq> Some ''APPROVED''"
        and x: "x \<in> set findQeUsers" for x
    proof (cases "x = user")
      case True
      with u show ?thesis by simp
    next
      case False
      with others x show ?thesis by blast
    qed
    then have "(\<forall>other\<in>set findQeUsers. other \<noteq> user \<longrightarrow> prReviews other \<noteq> Some ''APPROVED'')
                 \<longrightarrow> conclusion_of findQeUsers prReviews = ''failure''"
      unfolding conclusion_of_iff by auto
    with u show ?thesis by blast
  qed
  from loop latest handler scen show ?thesis by blast
qed

theorem reviews_latest_state_wins_witness:
  "(\<exists>prReviews s2. reviewsLoop sample_env sample_repo [3] Map.empty st0 = (Inr prReviews, s2)
      \<and> prReviews ''edgarHzg'' = Some ''CHANGES_REQUESTED'')
   \<and> (\<exists>s' t. doChecks sample_env (sample_check_run [3]) st0 = (Inr (), s')
      \<and> last (trace s') = ChecksUpdate sample_repo 99 ''completed'' (Some ''failure'') None (Some t))"
proof -
  have owned: "fst (isOwnedCheckRun sample_env (payload (sample_check_run [3])) st0)"
    by (simp add: isOwnedCheckRun_def sample_env_def sample_check_run_def)
  have queued: "cr_status (payload (sample_check_run [3])) = ''queued''"
    by (simp add: sample_check_run_def)
  have prs: "prs_for_commit sample_env (repo_of (sample_check_run [3]))
               (cr_head_sha (payload (sample_check_run [3])))
               (cr_pull_requests (payload (sample_check_run [3]))) = Inr [3]"
    by (simp add: sample_env_def sample_check_run_def)
  have nobot: "\<forall>n\<in>set [3]. \<exists>status login.
               pulls_get sample_env (repo_of (sample_check_run [3])) n = Inr (status, login)
               \<and> (status = 200 \<or> \<not> throw_on_status sample_env)
               \<and> Some login \<noteq> KIALI_BOT_USER sample_env"
    by (simp add: sample_env_def)
  have upd: "\<forall>rq. \<exists>status. checks_update sample_env rq = Inr status
               \<and> (status = 200 \<or> \<not> throw_on_status sample_env)"
    by (simp add: sample_env_def)
  have pages: "\<forall>n\<in>set [3]. \<forall>p\<in>set (pulls_listReviews sample_env (repo_of (sample_check_run [3])) n).
               \<exists>status rs. p = Inr (status, rs) \<and> (status = 200 \<or> \<not> throw_on_status sample_env)"
    by (simp add: sample_env_def)
  have r: "repo_of (sample_check_run [3]) = sample_repo" "cr_id (payload (sample_check_run [3])) = 99"
    by (simp_all add: sample_check_run_def)
  have qe: "''edgarHzg'' \<in> set findQeUsers"
    by (simp add: findQeUsers_def)
  have ord: "map state (filter (\<lambda>val. user_login val = ''edgarHzg'')
                           (delivered_reviews sample_env sample_repo [3]))
               = [] @ ''APPROVED'' # [] @ [''CHANGES_REQUESTED'']"
    by (simp add: delivered_reviews_def sample_env_def page_reviews_def)
  have other: "latest_state (delivered_reviews sample_env sample_repo [3]) ''israel-hdez'' = None"
    by (simp add: latest_state_def delivered_reviews_def sample_env_def page_reviews_def)
  from reviews_latest_state_wins [OF owned queued prs nobot upd pages, of "''edgarHzg''" "[]" "[]"]
  obtain prReviews where
    loop: "\<forall>s1. \<exists>s2. reviewsLoop sample_env sample_repo [3] Map.empty s1 = (Inr prReviews, s2)"
    and latest: "\<forall>u. u \<noteq> ''__proto__''
                   \<longrightarrow> prReviews u = latest_state (delivered_reviews sample_env sample_repo [3]) u"
    and handler: "\<exists>s' t. doChecks sample_env (sample_check_run [3]) st0 = (Inr (), s')
                \<and> last (trace s') =
                    ChecksUpdate sample_repo 99 ''completed''
                      (Some (conclusion_of findQeUsers prReviews)) None (Some t)"
    and scen: "''edgarHzg'' \<in> set findQeUsers
              \<and> map state (filter (\<lambda>val. user_login val = ''edgarHzg'')
                                (delivered_reviews sample_env sample_repo [3]))
                  = [] @ ''APPROVED'' # [] @ [''CHANGES_REQUESTED'']
            \<longrightarrow> prReviews ''edgarHzg'' = Some ''CHANGES_REQUESTED''
                \<and> ((\<forall>other\<in>set findQeUsers. other \<noteq> ''edgarHzg''
                        \<longrightarrow> prReviews other \<noteq> Some ''APPROVED'')
                     \<longrightarrow> conclusion_of findQeUsers prReviews = ''failure'')"
    unfolding r by blast
  from latest other have "prReviews ''israel-hdez'' = None"
    by simp
  then have others: "\<forall>other\<in>set findQeUsers. other \<noteq> ''edgarHzg''
                        \<longrightarrow> prReviews other \<noteq> Some ''APPROVED''"
    by (simp add: findQeUsers_def)
  from scen qe ord others have
    u: "prReviews ''edgarHzg'' = Some ''CHANGES_REQUESTED''"
    and c: "conclusion_of findQeUsers prReviews = ''failure''"
    by blast+
  from loop obtain s2 where
    "reviewsLoop sample_env sample_repo [3] Map.empty st0 = (Inr prReviews, s2)"
    by blast
  with u have first: "\<exists>prReviews s2.
      reviewsLoop sample_env sample_repo [3] Map.empty st0 = (Inr prReviews, s2)
      \<and> prReviews ''edgarHzg'' = Some ''CHANGES_REQUESTED''"
    by blast
  from handler c have "\<exists>s' t. doChecks sample_env (sample_check_run [3]) st0 = (Inr (), s')
      \<and> last (trace s') = ChecksUpdate sample_repo 99 ''completed'' (Some ''failure'') None (Some t)"
    by simp
  with first show ?thesis by blast
qed

subsection \<open>Claim C5\<close>

text \<open>
  Claim C5. For a review event with action \<open>submitted\<close> or \<open>edited\<close>, review state
  \<open>approved\<close> and a sender of \<open>findQeUsers\<close>, the only request of the handler creates a
  check run with status \<open>completed\<close> and conclusion \<open>success\<close>. When the sender is not
  in \<open>findQeUsers\<close>, or the review state is not \<open>approved\<close>, the handler returns and
  its only request creates a check run with status \<open>queued\<close>.
\<close>

theorem review_event_shortcut_or_queue:
  "((action (payload ctx) = ''submitted'' \<or> action (payload ctx) = ''edited'')
      \<and> review_state (payload ctx) = ''approved''
      \<and> sender_login (payload ctx) \<in> set findQeUsers
    \<longrightarrow> (\<exists>t. trace (snd (pullRequestReviewEventHandler e ctx s)) =
              trace s @ [ChecksCreate (repo_of ctx) ''Kiali - PR'' (pr_head_sha (pull_request (payload ctx)))
                           ''completed'' (Some ''success'') (Some t)]))
   \<and> (sender_login (payload ctx) \<notin> set findQeUsers \<or> review_state (payload ctx) \<noteq> ''approved''
    \<longrightarrow> fst (pullRequestReviewEventHandler e ctx s) = Inr ()
        \<and> trace (snd (pullRequestReviewEventHandler e ctx s)) =
              trace s @ [ChecksCreate (repo_of ctx) ''Kiali - PR'' (pr_head_sha (pull_request (payload ctx)))
                           ''queued'' None None])"
  by (auto simp add: pullRequestReviewEventHandler_def Let_def CHECK_NAME_def issue_def log_def
        checkResponseStatus_def not_awaited_def createCheckRun_def await_findQeUsers_def
        split: sum.splits prod.splits)

theorem review_event_shortcut_or_queue_witness:
  "(\<exists>t. trace (snd (pullRequestReviewEventHandler sample_env sample_review_event st0)) =
          [ChecksCreate sample_repo ''Kiali - PR'' ''c0ffee'' ''completed'' (Some ''success'') (Some t)])
   \<and> trace (snd (pullRequestReviewEventHandler sample_env
                    (sample_review_event\<lparr>payload := (payload sample_review_event)\<lparr>sender_login := ''alice''\<rparr>\<rparr>)
                    st0)) =
          [ChecksCreate sample_repo ''Kiali - PR'' ''c0ffee'' ''queued'' None None]"
  using review_event_shortcut_or_queue [of sample_review_event sample_env st0]
    review_event_shortcut_or_queue
      [of "sample_review_event\<lparr>payload := (payload sample_review_event)\<lparr>sender_login := ''alice''\<rparr>\<rparr>"
          sample_env st0]
  by (simp add: sample_review_event_def findQeUsers_def st0_def)

subsection \<open>Claim C6\<close>

text \<open>
  Claim C6 says that the handler queues a normal check run when the creation of the
  completed one fails. It does not. A sender of \<open>findQeUsers\<close> submits an approving
  review. First, \<open>checks.create\<close> is rejected: the promise of the handler is rejected
  with the same error, and no check run with status \<open>queued\<close> is requested. Second,
  \<open>checks.create\<close> answers with status 500 and \<open>checkResponseStatus\<close> only logs: the
  handler logs that a normal check run will be queued, and returns with none requested.
\<close>

theorem review_shortcut_failure_not_queued:
  "pullRequestReviewEventHandler failing_env sample_review_event st0 =
     (Inl (HttpError ''502''),
      \<lparr>trace = [ChecksCreate (''kiali'', ''kiali-ui'') ''Kiali - PR'' ''c0ffee''
                  ''completed'' (Some ''success'') (Some ''2019-05-01T10:00:00.000Z'')],
       logs = [(LDebug, ''Creating successfull check (PR 1)'')],
       unhandled = [], qe_lookups = 1\<rparr>)
   \<and> pullRequestReviewEventHandler
        (sample_env\<lparr>checks_create := (\<lambda>rq. Inr 500), throw_on_status := False\<rparr>)
        sample_review_event st0 =
     (Inr (),
      \<lparr>trace = [ChecksCreate (''kiali'', ''kiali-ui'') ''Kiali - PR'' ''c0ffee''
                  ''completed'' (Some ''success'') (Some ''2019-05-01T10:00:00.000Z'')],
       logs = [(LDebug, ''Creating successfull check (PR 1)''),
               (LError, ''Failed to create green check_run after approval of PR#1. A normal check_run will be queued.'')],
       unhandled = [], qe_lookups = 1\<rparr>)"
  by code_simp

subsection \<open>Claim C7\<close>

text \<open>
  Claim C7 says that an error of the creation call is caught and logged in the handler.
  It is not. A pull request is opened and \<open>checks.create\<close> is rejected: the handler
  returns, it has logged no error, and the rejection of the promise of
  \<open>createCheckRun\<close> is left without a handler.
\<close>

theorem createCheckRun_rejection_unhandled:
  "pullRequestEventHandler failing_env sample_pr_event st0 =
     (Inr (),
      \<lparr>trace = [ChecksCreate (''kiali'', ''kiali-ui'') ''Kiali - PR'' ''c0ffee'' ''queued'' None None],
       logs = [(LDebug, ''Queuing new PR checks (PR 1)'')],
       unhandled = [HttpError ''502''], qe_lookups = 0\<rparr>)"
  by code_simp

subsection \<open>Claim C8\<close>

text \<open>
  Claim C8 says that every exception of the evaluation is caught at line 193. That of the
  update of \<open>markBotPrAsOk\<close> is not. The check run is owned and queued, the only pull
  request of the commit is the bot's, and \<open>checks.update\<close> is rejected: the promise of
  \<open>doChecks\<close> is rejected with that error, and no error is logged.
\<close>

theorem doChecks_bot_update_rejection_escapes:
  "doChecks failing_env (sample_check_run [7]) st0 =
     (Inl (HttpError ''502''),
      \<lparr>trace = [PrsForCommit (''kiali'', ''kiali-ui'') ''c0ffee'' [7],
                PullsGet (''kiali'', ''kiali-ui'') 7,
                ChecksUpdate (''kiali'', ''kiali-ui'') 99 ''completed'' (Some ''success'') None
                  (Some ''2019-05-01T10:00:02.000Z'')],
       logs = [(LInfo, ''Not doing checks on PR because it is owned by the bot user.'')],
       unhandled = [], qe_lookups = 0\<rparr>)"
  by code_simp

subsection \<open>Claim C9\<close>

text \<open>
  Claim C9. The mapping is one for all the pull requests of the commit and its keys are
  logins. When every page of reviews arrives, the loops over the pull requests
  \<open>earlier @ later\<close> return a mapping in which a login has the state of its last review
  on the pull requests of \<open>later\<close>, if it has a review there, whatever its reviews on
  the pull requests of \<open>earlier\<close>; and the state of its last review on the pull requests
  of \<open>earlier\<close> if it has none on those of \<open>later\<close>. And there is an input with two
  pull requests of the commit where the last review of a login of \<open>findQeUsers\<close> on one
  of them is \<open>APPROVED\<close>, every call succeeds, and the conclusion is \<open>failure\<close>: in
  \<open>sample_env\<close>, \<open>edgarHzg\<close> has approved pull request 1 and asked for changes on pull
  request 2.
\<close>

theorem shared_review_mapping_overwrites:
  "((\<forall>n\<in>set (earlier @ later). \<forall>p\<in>set (pulls_listReviews e r n).
        \<exists>status rs. p = Inr (status, rs) \<and> (status = 200 \<or> \<not> throw_on_status e))
    \<longrightarrow> (\<exists>prReviews s'.
           reviewsLoop e r (earlier @ later) Map.empty s = (Inr prReviews, s')
           \<and> (\<forall>u. u \<noteq> ''__proto__'' \<longrightarrow>
                  prReviews u =
                    (case latest_state (delivered_reviews e r later) u of
                       Some x \<Rightarrow> Some x
                     | None \<Rightarrow> latest_state (delivered_reviews e r earlier) u))))
   \<and> (\<exists>env ctx user n1 n2 s'.
         user \<in> set findQeUsers
         \<and> n1 \<noteq> n2
         \<and> prs_for_commit env (repo_of ctx) (cr_head_sha (payload ctx))
               (cr_pull_requests (payload ctx)) = Inr [n1, n2]
         \<and> latest_state (delivered_reviews env (repo_of ctx) [n1]) user = Some ''APPROVED''
         \<and> doChecks env ctx st0 = (Inr (), s')
         \<and> (\<exists>t. last (trace s') =
                   ChecksUpdate (repo_of ctx) (cr_id (payload ctx)) ''completed'' (Some ''failure'')
                     None (Some t)))"
proof -
  have general: "\<exists>prReviews s'.
           reviewsLoop e r (earlier @ later) Map.empty s = (Inr prReviews, s')
           \<and> (\<forall>u. u \<noteq> ''__proto__'' \<longrightarrow>
                  prReviews u =
                    (case latest_state (delivered_reviews e r later) u of
                       Some x \<Rightarrow> Some x
                     | None \<Rightarrow> latest_state (delivered_reviews e r earlier) u))"
    if pages: "\<forall>n\<in>set (earlier @ later). \<forall>p\<in>set (pulls_listReviews e r n).
        \<exists>status rs. p = Inr (status, rs) \<and> (status = 200 \<or> \<not> throw_on_status e)"
  proof -
    define prReviews where
      "prReviews = foldl assign Map.empty (delivered_reviews e r (earlier @ later))"
    from reviewsLoop_run [OF pages, of Map.empty s] obtain s' where
      loop: "reviewsLoop e r (earlier @ later) Map.empty s = (Inr prReviews, s')"
      unfolding prReviews_def by blast
    have "prReviews u =
            (case latest_state (delivered_reviews e r later) u of
               Some x \<Rightarrow> Some x
             | None \<Rightarrow> latest_state (delivered_reviews e r earlier) u)"
      if u: "u \<noteq> ''__proto__''" for u
    proof -
      have "prReviews u = latest_state (delivered_reviews e r (earlier @ later)) u"
        using foldl_assign_latest [OF u, of Map.empty "delivered_reviews e r (earlier @ later)"]
        by (simp add: prReviews_def split: option.splits)
      then show ?thesis
        by (simp add: delivered_reviews_append latest_state_append)
    qed
    with loop show ?thesis by blast
  qed
  have "''edgarHzg'' \<in> set findQeUsers"
    by (simp add: findQeUsers_def)
  moreover have "(1::int) \<noteq> 2"
    by simp
  moreover have "prs_for_commit sample_env (repo_of (sample_check_run [1, 2]))
                   (cr_head_sha (payload (sample_check_run [1, 2])))
                   (cr_pull_requests (payload (sample_check_run [1, 2]))) = Inr [1, 2]"
    by (simp add: sample_env_def sample_check_run_def)
  moreover have "latest_state (delivered_reviews sample_env (repo_of (sample_check_run [1, 2])) [1])
                   ''edgarHzg'' = Some ''APPROVED''"
    using sample_first_pr_latest by (simp add: sample_check_run_def)
  moreover note sample_two_prs
  moreover have "\<exists>t. last (trace \<lparr>trace = [PrsForCommit (''kiali'', ''kiali-ui'') ''c0ffee'' [1, 2],
                PullsGet (''kiali'', ''kiali-ui'') 1,
                PullsGet (''kiali'', ''kiali-ui'') 2,
                ChecksUpdate (''kiali'', ''kiali-ui'') 99 ''in_progress'' None
                  (Some ''2019-05-01T10:00:03.000Z'') None,
                PullsListReviews (''kiali'', ''kiali-ui'') 1 1,
                PullsListReviews (''kiali'', ''kiali-ui'') 2 1,
                ChecksUpdate (''kiali'', ''kiali-ui'') 99 ''completed'' (Some ''failure'') None
                  (Some ''2019-05-01T10:00:06.000Z'')],
       logs = [], unhandled = [], qe_lookups = 1\<rparr>) =
           ChecksUpdate (repo_of (sample_check_run [1, 2])) (cr_id (payload (sample_check_run [1, 2])))
             ''completed'' (Some ''failure'') None (Some t)"
    by (simp add: sample_check_run_def sample_repo_def)
  ultimately have "\<exists>env ctx user n1 n2 s'.
         user \<in> set findQeUsers
         \<and> n1 \<noteq> n2
         \<and> prs_for_commit env (repo_of ctx) (cr_head_sha (payload ctx))
               (cr_pull_requests (payload ctx)) = Inr [n1, n2]
         \<and> latest_state (delivered_reviews env (repo_of ctx) [n1]) user = Some ''APPROVED''
         \<and> doChecks env ctx st0 = (Inr (), s')
         \<and> (\<exists>t. last (trace s') =
                   ChecksUpdate (repo_of ctx) (cr_id (payload ctx)) ''completed'' (Some ''failure'')
                     None (Some t))"
    by blast
  with general show ?thesis by blast
qed

theorem shared_review_mapping_overwrites_witness:
  "(\<exists>prReviews s'. reviewsLoop sample_env sample_repo ([1] @ [2]) Map.empty st0 = (Inr prReviews, s')
      \<and> prReviews ''edgarHzg'' = Some ''CHANGES_REQUESTED'')
   \<and> (\<exists>prReviews s'. reviewsLoop sample_env sample_repo ([1] @ [5]) Map.empty st0 = (Inr prReviews, s')
      \<and> prReviews ''edgarHzg'' = Some ''APPROVED'')"
proof -
  have pages: "\<forall>n\<in>set ([1] @ [k]). \<forall>p\<in>set (pulls_listReviews sample_env sample_repo n).
        \<exists>status rs. p = Inr (status, rs) \<and> (status = 200 \<or> \<not> throw_on_status sample_env)" for k
    by (auto simp add: sample_env_def)
  have l2: "latest_state (delivered_reviews sample_env sample_repo [2]) ''edgarHzg''
              = Some ''CHANGES_REQUESTED''"
    by (simp add: latest_state_def delivered_reviews_def sample_env_def page_reviews_def)
  have l5: "latest_state (delivered_reviews sample_env sample_repo [5]) ''edgarHzg'' = None"
    by (simp add: latest_state_def delivered_reviews_def sample_env_def page_reviews_def)
  have u: "''edgarHzg'' \<noteq> ''__proto__''"
    by simp
  from shared_review_mapping_overwrites [of "[1]" "[2]" sample_env sample_repo st0] pages [of 2]
  obtain m2 s2 where
    "reviewsLoop sample_env sample_repo ([1] @ [2]) Map.empty st0 = (Inr m2, s2)"
    and "\<forall>u. u \<noteq> ''__proto__'' \<longrightarrow>
           m2 u = (case latest_state (delivered_reviews sample_env sample_repo [2]) u of
                     Some x \<Rightarrow> Some x
                   | None \<Rightarrow> latest_state (delivered_reviews sample_env sample_repo [1]) u)"
    by blast
  with l2 u have first: "\<exists>prReviews s'.
      reviewsLoop sample_env sample_repo ([1] @ [2]) Map.empty st0 = (Inr prReviews, s')
      \<and> prReviews ''edgarHzg'' = Some ''CHANGES_REQUESTED''"
    by auto
  from shared_review_mapping_overwrites [of "[1]" "[5]" sample_env sample_repo st0] pages [of 5]
  obtain m5 s5 where
    "reviewsLoop sample_env sample_repo ([1] @ [5]) Map.empty st0 = (Inr m5, s5)"
    and "\<forall>u. u \<noteq> ''__proto__'' \<longrightarrow>
           m5 u = (case latest_state (delivered_reviews sample_env sample_repo [5]) u of
                     Some x \<Rightarrow> Some x
                   | None \<Rightarrow> latest_state (delivered_reviews sample_env sample_repo [1]) u)"
    by blast
  with l5 u sample_first_pr_latest have "\<exists>prReviews s'.
      reviewsLoop sample_env sample_repo ([1] @ [5]) Map.empty st0 = (Inr prReviews, s')
      \<and> prReviews ''edgarHzg'' = Some ''APPROVED''"
    by auto
  with first show ?thesis by blast
qed

subsection \<open>Claim C10\<close>

text \<open>
  Claim C10. For a review event with action \<open>submitted\<close> and review state \<open>approved\<close>,
  the handler requests the check run with status \<open>completed\<close> and conclusion
  \<open>success\<close> exactly when \<open>payload.sender.login\<close> is in \<open>findQeUsers\<close>; and
  \<open>payload.review.user.login\<close> changes nothing of what the handler does.
\<close>

theorem review_shortcut_iff_sender_qe:
  "action (payload ctx) = ''submitted'' \<and> review_state (payload ctx) = ''approved'' \<longrightarrow>
     ((\<exists>t. trace (snd (pullRequestReviewEventHandler e ctx s)) =
              trace s @ [ChecksCreate (repo_of ctx) ''Kiali - PR'' (pr_head_sha (pull_request (payload ctx)))
                           ''completed'' (Some ''success'') (Some t)])
        \<longleftrightarrow> sender_login (payload ctx) \<in> set findQeUsers)
     \<and> pullRequestReviewEventHandler e (ctx\<lparr>payload := (payload ctx)\<lparr>review_user_login := author\<rparr>\<rparr>) s
         = pullRequestReviewEventHandler e ctx s"
  by (auto simp add: pullRequestReviewEventHandler_def Let_def CHECK_NAME_def issue_def log_def
        checkResponseStatus_def not_awaited_def createCheckRun_def await_findQeUsers_def
        split: sum.splits prod.splits)

theorem review_shortcut_iff_sender_qe_witness:
  "(\<exists>t. trace (snd (pullRequestReviewEventHandler sample_env
                      (sample_review_event\<lparr>payload := (payload sample_review_event)\<lparr>review_user_login := ''alice''\<rparr>\<rparr>)
                      st0)) =
          [ChecksCreate sample_repo ''Kiali - PR'' ''c0ffee'' ''completed'' (Some ''success'') (Some t)])
   \<and> \<not> (\<exists>t. trace (snd (pullRequestReviewEventHandler sample_env
                      (sample_review_event\<lparr>payload := (payload sample_review_event)\<lparr>sender_login := ''alice''\<rparr>\<rparr>)
                      st0)) =
          [ChecksCreate sample_repo ''Kiali - PR'' ''c0ffee'' ''completed'' (Some ''success'') (Some t)])"
  using review_shortcut_iff_sender_qe
      [of "sample_review_event\<lparr>payload := (payload sample_review_event)\<lparr>review_user_login := ''alice''\<rparr>\<rparr>"
          sample_env st0 "''alice''"]
    review_shortcut_iff_sender_qe
      [of "sample_review_event\<lparr>payload := (payload sample_review_event)\<lparr>sender_login := ''alice''\<rparr>\<rparr>"
          sample_env st0 "''edgarHzg''"]
  by (simp add: sample_review_event_def findQeUsers_def st0_def)

section \<open>Further properties\<close>

text \<open>
  The promise of \<open>doChecks\<close> is rejected only on the path of line 146: when it is
  rejected, the last request made is the update of \<open>markBotPrAsOk\<close>. Every exception
  of the block of lines 129 to 192 itself is caught at line 193.
\<close>

theorem doChecks_rejected_only_after_bot_update:
  assumes "fst (doChecks e ctx s) = Inl err"
  shows "\<exists>t. last (trace (snd (doChecks e ctx s))) =
               ChecksUpdate (repo_of ctx) (cr_id (payload ctx)) ''completed'' (Some ''success'')
                 None (Some t)"
proof -
  from assms obtain s2 where "doChecks e ctx s = markBotPrAsOk e ctx s2"
    by (auto simp add: doChecks_def split: prod.splits bool.splits if_splits sum.splits)
  then show ?thesis
    by (simp add: markBotPrAsOk_frame)
qed

theorem doChecks_rejected_only_after_bot_update_witness:
  "fst (doChecks failing_env (sample_check_run [7]) st0) = Inl (HttpError ''502'')
   \<and> (\<exists>t. last (trace (snd (doChecks failing_env (sample_check_run [7]) st0))) =
               ChecksUpdate sample_repo 99 ''completed'' (Some ''success'') None (Some t))"
proof -
  have rejected: "fst (doChecks failing_env (sample_check_run [7]) st0) = Inl (HttpError ''502'')"
    by code_simp
  from doChecks_rejected_only_after_bot_update [OF rejected] rejected show ?thesis
    by (simp add: sample_check_run_def)
qed

text \<open>
  \<open>pullRequestEventHandler\<close> (lines 49 to 52): the handler returns, whatever becomes of
  the request, and its only request creates a check run with status \<open>queued\<close> for the
  head commit of the pull request.
\<close>

theorem pullRequestEventHandler_queues:
  "fst (pullRequestEventHandler e ctx s) = Inr ()
   \<and> trace (snd (pullRequestEventHandler e ctx s)) =
       trace s @ [ChecksCreate (repo_of ctx) ''Kiali - PR'' (pr_head_sha (payload ctx)) ''queued'' None None]"
  by (simp add: pullRequestEventHandler_def not_awaited_def createCheckRun_def Let_def issue_def
        log_def checkResponseStatus_def CHECK_NAME_def split: sum.splits prod.splits)

text \<open>
  \<open>checkRerequestedHandler\<close> (lines 39 to 47): the handler returns; for an owned check
  run its only request creates a check run with status \<open>queued\<close> for the same head
  commit, and for any other check run it makes no request.
\<close>

theorem checkRerequestedHandler_queues_if_owned:
  "fst (checkRerequestedHandler e ctx s) = Inr ()
   \<and> trace (snd (checkRerequestedHandler e ctx s)) =
       (if fst (isOwnedCheckRun e (payload ctx) s)
        then trace s @ [ChecksCreate (repo_of ctx) ''Kiali - PR'' (cr_head_sha (payload ctx))
                          ''queued'' None None]
        else trace s)"
  by (simp add: checkRerequestedHandler_def isOwnedCheckRun_def not_awaited_def createCheckRun_def
        Let_def issue_def log_def checkResponseStatus_def CHECK_NAME_def
        split: sum.splits prod.splits)

end
